theory Spec2Isabelle
  imports Complex_Main
begin

section \<open>Data model\<close>

text \<open>
  The dashboard's core works on arrays of data points (\<open>lib/types.ts\<close>). A JavaScript
  \<open>number\<close> is modelled as a \<open>real\<close>: rounding, overflow and non-finite inputs are
  outside the model; the one place where the code itself can form \<open>0 / 0\<close> (the bucket
  average of the LTTB downsampler) is modelled explicitly. Counts, indices and limits
  (\<open>threshold\<close>, \<open>maxPoints\<close>, \<open>maxDataPoints\<close>) are integers. The optional
  \<open>metadata\<close> mapping is never read by the functions below; its type is a parameter.
\<close>

record 'm DataPoint =
  timestamp :: real
  "value" :: real
  category :: string
  metadata :: "'m option"

text \<open>
  Reading \<open>xs[i]\<close> from a JavaScript array gives \<open>undefined\<close> outside the range
  \<open>0 \<le> i < length\<close>; \<open>undefined\<close> is \<open>None\<close>. An array that the code may fill with
  such reads is a list of options.
\<close>

definition idx :: "'a list \<Rightarrow> int \<Rightarrow> 'a option" where
  "idx xs i = (if 0 \<le> i \<and> i < int (length xs) then Some (xs ! nat i) else None)"

definition idx_js :: "'a option list \<Rightarrow> int \<Rightarrow> 'a option" where
  "idx_js xs i = (case idx xs i of None \<Rightarrow> None | Some v \<Rightarrow> v)"

text \<open>Reading a property of \<open>undefined\<close> throws a \<open>TypeError\<close>.\<close>

datatype error = TypeError

section \<open>Scale calculator (\<open>lib/canvasUtils.ts\<close>)\<close>

record ScaleFactors =
  xMin :: real
  xMax :: real
  xRange :: real
  yMin :: real
  yMax :: real
  yRange :: real

text \<open>
  \<open>Math.min(...xs)\<close> and \<open>Math.max(...xs)\<close> on a non-empty argument list, given as its
  first element and the rest.
\<close>

definition Math_min :: "real \<Rightarrow> real list \<Rightarrow> real" where
  "Math_min x xs = fold min xs x"

definition Math_max :: "real \<Rightarrow> real list \<Rightarrow> real" where
  "Math_max x xs = fold max xs x"

text \<open>\<open>a || b\<close> on numbers: \<open>b\<close> when \<open>a\<close> is zero, else \<open>a\<close>.\<close>

definition or_else :: "real \<Rightarrow> real \<Rightarrow> real" where
  "or_else a b = (if a = 0 then b else a)"

definition calculateScales :: "'m DataPoint list \<Rightarrow> ScaleFactors" where
  "calculateScales data =
     (case data of
        [] \<Rightarrow> \<lparr>xMin = 0, xMax = 1, xRange = 1, yMin = 0, yMax = 1, yRange = 1\<rparr>
      | d # ds \<Rightarrow>
          (let timestamps = map timestamp ds;
               values = map value ds;
               xMin' = Math_min (timestamp d) timestamps;
               xMax' = Math_max (timestamp d) timestamps;
               yMin' = Math_min (value d) values;
               yMax' = Math_max (value d) values
           in \<lparr>xMin = xMin', xMax = xMax', xRange = or_else (xMax' - xMin') 1,
               yMin = yMin', yMax = yMax', yRange = or_else (yMax' - yMin') 1\<rparr>))"

text \<open>The result object \<open>{x, y}\<close> of \<open>dataToCanvas\<close> is the pair \<open>(x, y)\<close>.\<close>

definition dataToCanvas ::
  "'m DataPoint \<Rightarrow> ScaleFactors \<Rightarrow> real \<Rightarrow> real \<Rightarrow> real \<Rightarrow> real \<times> real" where
  "dataToCanvas point scales width height padding =
     (let chartWidth = width - padding * 2;
          chartHeight = height - padding * 2;
          x = padding + ((timestamp point - xMin scales) / xRange scales) * chartWidth;
          y = padding + chartHeight
                - ((value point - yMin scales) / yRange scales) * chartHeight
      in (x, y))"

section \<open>Downsamplers (\<open>lib/canvasUtils.ts\<close>)\<close>

subsection \<open>Largest Triangle Three Buckets\<close>

text \<open>
  The loop summing the next bucket, \<open>for (j = avgRangeStart; j < min(avgRangeEnd, length); j++)\<close>.
\<close>

function avgLoop ::
  "'m DataPoint list \<Rightarrow> int \<Rightarrow> int \<Rightarrow> real \<times> real \<Rightarrow> error + real \<times> real" where
  "avgLoop data j e (avgTimestamp, avgValue) =
     (if j < e then
        (case idx data j of
           None \<Rightarrow> Inl TypeError
         | Some d \<Rightarrow> avgLoop data (j + 1) e (avgTimestamp + timestamp d, avgValue + value d))
      else Inr (avgTimestamp, avgValue))"
  by pat_completeness auto
termination
  by (relation "measure (\<lambda>(data, j, e, acc). nat (e - j))") auto

text \<open>
  \<open>sum /= avgRangeLength\<close>. When \<open>avgRangeLength\<close> is zero the loop above has not run,
  the sum is still \<open>0\<close> and the quotient is \<open>NaN\<close>, written \<open>None\<close>.
\<close>

definition div_length :: "real \<Rightarrow> int \<Rightarrow> real option" where
  "div_length s len = (if len = 0 then None else Some (s / real_of_int len))"

text \<open>The triangle area; \<open>NaN\<close> in either average makes the area \<open>NaN\<close>.\<close>

definition triangleArea ::
  "'m DataPoint \<Rightarrow> 'm DataPoint \<Rightarrow> real option \<Rightarrow> real option \<Rightarrow> real option" where
  "triangleArea pointA pointB avgTimestamp avgValue =
     (case (avgTimestamp, avgValue) of
        (Some avgT, Some avgV) \<Rightarrow>
          Some \<bar>(timestamp pointA - avgT) * (value pointB - value pointA)
                - (timestamp pointA - timestamp pointB) * (avgV - value pointA)\<bar>
      | _ \<Rightarrow> None)"

text \<open>
  The loop over the current bucket. \<open>area > maxArea\<close> is false when \<open>area\<close> is \<open>NaN\<close>.
\<close>

function areaLoop ::
  "'m DataPoint list \<Rightarrow> 'm DataPoint option \<Rightarrow> real option \<Rightarrow> real option \<Rightarrow> int \<Rightarrow> int
     \<Rightarrow> real \<times> int \<Rightarrow> error + real \<times> int" where
  "areaLoop data pointA avgTimestamp avgValue j e (maxArea, maxAreaPoint) =
     (if j < e then
        (case (pointA, idx data j) of
           (Some pA, Some pointB) \<Rightarrow>
             (case triangleArea pA pointB avgTimestamp avgValue of
                None \<Rightarrow>
                  areaLoop data pointA avgTimestamp avgValue (j + 1) e (maxArea, maxAreaPoint)
              | Some area \<Rightarrow>
                  areaLoop data pointA avgTimestamp avgValue (j + 1) e
                    (if area > maxArea then (area, j) else (maxArea, maxAreaPoint)))
         | _ \<Rightarrow> Inl TypeError)
      else Inr (maxArea, maxAreaPoint))"
  by pat_completeness auto
termination
  by (relation "measure (\<lambda>(data, pointA, avgT, avgV, j, e, acc). nat (e - j))") auto

text \<open>The outer loop, \<open>for (i = 0; i < threshold - 2; i++)\<close>, on the state \<open>(a, sampled)\<close>.\<close>

function lttbLoop ::
  "'m DataPoint list \<Rightarrow> int \<Rightarrow> real \<Rightarrow> int \<Rightarrow> int \<Rightarrow> 'm DataPoint option list
     \<Rightarrow> error + 'm DataPoint option list" where
  "lttbLoop data threshold bucketSize i a sampled =
     (if i < threshold - 2 then
        (let n = int (length data);
             avgRangeStart = \<lfloor>real_of_int (i + 1) * bucketSize\<rfloor> + 1;
             avgRangeEnd = \<lfloor>real_of_int (i + 2) * bucketSize\<rfloor> + 1;
             avgRangeLength = min avgRangeEnd n - avgRangeStart
         in case avgLoop data avgRangeStart (min avgRangeEnd n) (0, 0) of
              Inl err \<Rightarrow> Inl err
            | Inr (sumTimestamp, sumValue) \<Rightarrow>
                (let avgTimestamp = div_length sumTimestamp avgRangeLength;
                     avgValue = div_length sumValue avgRangeLength;
                     rangeStart = \<lfloor>real_of_int i * bucketSize\<rfloor> + 1;
                     rangeEnd = \<lfloor>real_of_int (i + 1) * bucketSize\<rfloor> + 1;
                     pointA = idx data a
                 in case areaLoop data pointA avgTimestamp avgValue rangeStart
                           (min rangeEnd n) (- 1, rangeStart) of
                      Inl err \<Rightarrow> Inl err
                    | Inr (maxArea, maxAreaPoint) \<Rightarrow>
                        lttbLoop data threshold bucketSize (i + 1) maxAreaPoint
                          (sampled @ [idx data maxAreaPoint])))
      else Inr sampled)"
  by pat_completeness auto
termination
  by (relation "measure (\<lambda>(data, threshold, bucketSize, i, a, sampled). nat (threshold - 2 - i))")
     auto

text \<open>
  \<open>bucketSize\<close> is only read inside the outer loop, which runs only when
  \<open>threshold \<ge> 3\<close>, so its divisor is positive wherever its value matters.
\<close>

definition downsampleLTTB ::
  "'m DataPoint list \<Rightarrow> int \<Rightarrow> error + 'm DataPoint option list" where
  "downsampleLTTB data threshold =
     (let n = int (length data) in
      if n \<le> threshold then Inr (map Some data)
      else
        (let sampled = [idx data 0];
             bucketSize = real_of_int (n - 2) / real_of_int (threshold - 2)
         in case lttbLoop data threshold bucketSize 0 0 sampled of
              Inl err \<Rightarrow> Inl err
            | Inr sampled' \<Rightarrow> Inr (sampled' @ [idx data (n - 1)])))"

subsection \<open>Stride sampling\<close>

text \<open>
  The loop \<open>for (i = 0; i < data.length; i += step)\<close>. With \<open>step \<le> 0\<close> the index never
  reaches the length and the loop does not end: that is the result \<open>None\<close>.
\<close>

function strideLoop :: "'a list \<Rightarrow> int \<Rightarrow> int \<Rightarrow> 'a option list \<Rightarrow> 'a option list option" where
  "strideLoop data step i sampled =
     (if i < int (length data) then
        (if step \<le> 0 then None
         else strideLoop data step (i + step) (sampled @ [idx data i]))
      else Some sampled)"
  by pat_completeness auto
termination
  by (relation "measure (\<lambda>(data, step, i, sampled). nat (int (length data) - i))") auto

text \<open>
  The elements are objects and \<open>!==\<close> compares their identity, so the array is a list of
  object references of any type \<open>'a\<close>, equal exactly when they are the same object.
  With \<open>maxPoints = 0\<close> the step is \<open>Infinity\<close>: the loop takes index \<open>0\<close> and ends.
\<close>

definition downsampleSimple :: "'a list \<Rightarrow> int \<Rightarrow> 'a option list option" where
  "downsampleSimple data maxPoints =
     (let n = int (length data) in
      if n \<le> maxPoints then Some (map Some data)
      else
        (case (if maxPoints = 0 then Some [idx data 0]
               else strideLoop data \<lceil>real_of_int n / real_of_int maxPoints\<rceil> 0 []) of
           None \<Rightarrow> None
         | Some sampled \<Rightarrow>
             Some (if idx_js sampled (int (length sampled) - 1) \<noteq> idx data (n - 1)
                   then sampled @ [idx data (n - 1)]
                   else sampled)))"

section \<open>Sliding-window buffer (\<open>hooks/useDataStream.ts\<close>)\<close>

text \<open>
  The hook's state \<open>data\<close> is changed by \<open>setData\<close>, either with an updater function of
  the previous state or with a new value. Each operation is the function from the
  previous state to the next one. The argument of \<open>addDataPoint\<close> is one point or an
  array of points.
\<close>

datatype 'a point_or_points = Point 'a | Points "'a list"

text \<open>\<open>xs.slice(start)\<close>: a negative \<open>start\<close> counts from the end.\<close>

definition slice :: "'a list \<Rightarrow> int \<Rightarrow> 'a list" where
  "slice xs start =
     (let len = int (length xs);
          k = (if start < 0 then max (len + start) 0 else min start len)
      in drop (nat k) xs)"

text \<open>\<open>Array.isArray(newPoint) ? newPoint : [newPoint]\<close>\<close>

definition toArray :: "'a point_or_points \<Rightarrow> 'a list" where
  "toArray newPoint = (case newPoint of Points ps \<Rightarrow> ps | Point p \<Rightarrow> [p])"

definition addDataPoint :: "int \<Rightarrow> 'a point_or_points \<Rightarrow> 'a list \<Rightarrow> 'a list" where
  "addDataPoint maxDataPoints newPoint prevData =
     (let points = toArray newPoint;
          updated = prevData @ points
      in if int (length updated) > maxDataPoints then slice updated (- maxDataPoints)
         else updated)"

definition replaceData :: "'a list \<Rightarrow> 'a list \<Rightarrow> 'a list" where
  "replaceData newData prevData = newData"

definition clearData :: "'a list \<Rightarrow> 'a list" where
  "clearData prevData = []"

section \<open>Aggregator (\<open>lib/dataGenerator.ts\<close>)\<close>

text \<open>
  The accumulator object of \<open>aggregateByCategory\<close> is a map from category to sum;
  \<open>acc[c] || 0\<close> is \<open>0\<close> for a missing key. Properties inherited from the object
  prototype are outside the model.
\<close>

definition addCategory :: "'m DataPoint \<Rightarrow> (string \<rightharpoonup> real) \<Rightarrow> (string \<rightharpoonup> real)" where
  "addCategory point acc =
     acc(category point \<mapsto>
           (case acc (category point) of None \<Rightarrow> 0 | Some v \<Rightarrow> or_else v 0) + value point)"

definition aggregateByCategory :: "'m DataPoint list \<Rightarrow> (string \<rightharpoonup> real)" where
  "aggregateByCategory data = fold addCategory data Map.empty"

text \<open>
  A JavaScript \<open>Map\<close> iterates in the order in which its keys were first inserted: it is
  an association list. \<open>set\<close> on a present key replaces the value in place, on a new key
  it appends the entry.
\<close>

record Window =
  sum_w :: real
  count_w :: int

fun map_get :: "('k \<times> 'v) list \<Rightarrow> 'k \<Rightarrow> 'v option" where
  "map_get [] k = None"
| "map_get ((k', v) # m) k = (if k' = k then Some v else map_get m k)"

fun map_set :: "('k \<times> 'v) list \<Rightarrow> 'k \<Rightarrow> 'v \<Rightarrow> ('k \<times> 'v) list" where
  "map_set [] k v = [(k, v)]"
| "map_set ((k', v') # m) k v = (if k' = k then (k, v) # m else (k', v') # map_set m k v)"

definition windowKey :: "real \<Rightarrow> 'm DataPoint \<Rightarrow> real" where
  "windowKey windowMs point = real_of_int \<lfloor>timestamp point / windowMs\<rfloor> * windowMs"

definition addToWindow ::
  "real \<Rightarrow> 'm DataPoint \<Rightarrow> (real \<times> Window) list \<Rightarrow> (real \<times> Window) list" where
  "addToWindow windowMs point windows =
     (let windowKey' = windowKey windowMs point;
          window = (case map_get windows windowKey' of
                      None \<Rightarrow> \<lparr>sum_w = 0, count_w = 0\<rparr>
                    | Some w \<Rightarrow> w);
          window' = window\<lparr>sum_w := sum_w window + value point\<rparr>;
          window'' = window'\<lparr>count_w := count_w window' + 1\<rparr>
      in map_set windows windowKey' window'')"

definition aggregateByTimeWindow :: "'m DataPoint list \<Rightarrow> real \<Rightarrow> 'm DataPoint list" where
  "aggregateByTimeWindow data windowMs =
     (if length data = 0 then []
      else
        (let windows = fold (addToWindow windowMs) data []
         in map (\<lambda>(timestamp', w).
                   \<lparr>timestamp = timestamp', value = sum_w w / real_of_int (count_w w),
                    category = ''aggregated'', metadata = None\<rparr>)
                windows))"

section \<open>Example data\<close>

abbreviation examplePoint :: "real \<Rightarrow> real \<Rightarrow> unit DataPoint" where
  "examplePoint t v \<equiv> \<lparr>timestamp = t, value = v, category = ''A'', metadata = None\<rparr>"

section \<open>Properties\<close>

text \<open>Each loop is unfolded one iteration at a time, never by the simplifier on its own.\<close>

declare avgLoop.simps [simp del] areaLoop.simps [simp del] lttbLoop.simps [simp del]
  strideLoop.simps [simp del]

subsection \<open>Index reads\<close>

lemma idx_in_range: "0 \<le> i \<Longrightarrow> i < int (length xs) \<Longrightarrow> idx xs i = Some (xs ! nat i)"
  by (simp add: idx_def)

subsection \<open>The LTTB downsampler\<close>

text \<open>Each inner loop reads only indices inside the array, so it returns.\<close>

lemma avgLoop_returns:
  "0 \<le> j \<Longrightarrow> e \<le> int (length data) \<Longrightarrow> \<exists>r. avgLoop data j e acc = Inr r"
proof (induction data j e acc rule: avgLoop.induct)
  case (1 data j e avgTimestamp avgValue)
  show ?case
  proof (cases "j < e")
    case True
    with 1 have "idx data j = Some (data ! nat j)"
      by (simp add: idx_in_range)
    with True 1 show ?thesis
      by (subst avgLoop.simps) simp
  next
    case False
    then show ?thesis
      by (subst avgLoop.simps) simp
  qed
qed

lemma areaLoop_returns:
  "0 \<le> j \<Longrightarrow> e \<le> int (length data) \<Longrightarrow>
     \<exists>ma mp. areaLoop data (Some pA) avgT avgV j e acc = Inr (ma, mp) \<and>
              (mp = snd acc \<or> (j \<le> mp \<and> mp < e))"
proof (induction data "Some pA" avgT avgV j e acc rule: areaLoop.induct)
  case (1 data avgT avgV j e maxArea maxAreaPoint)
  show ?case
  proof (cases "j < e")
    case True
    with 1 have pb: "idx data j = Some (data ! nat j)"
      by (simp add: idx_in_range)
    show ?thesis
    proof (cases "triangleArea pA (data ! nat j) avgT avgV")
      case None
      with True pb 1 show ?thesis
        by (subst areaLoop.simps) fastforce
    next
      case (Some area)
      with True pb 1 show ?thesis
        by (subst areaLoop.simps) fastforce
    qed
  next
    case False
    then show ?thesis
      by (subst areaLoop.simps) simp
  qed
qed

text \<open>Bucket boundaries: every bucket starts at index 1 or later and before the last index.\<close>

lemma bucket_floor_nonneg:
  "0 \<le> k \<Longrightarrow> 0 \<le> bs \<Longrightarrow> 0 \<le> \<lfloor>real_of_int k * bs\<rfloor>"
  by simp

lemma bucket_floor_below:
  assumes "3 \<le> t" "2 < n" "0 \<le> i" "i < t - 2"
  shows "\<lfloor>real_of_int i * (real_of_int (n - 2) / real_of_int (t - 2))\<rfloor> + 1 \<le> n - 2"
proof -
  have pos: "0 < real_of_int (t - 2)" and npos: "0 < real_of_int (n - 2)"
    using assms by simp_all
  have "real_of_int i * real_of_int (n - 2) < real_of_int (t - 2) * real_of_int (n - 2)"
    using assms npos by (intro mult_strict_right_mono) simp_all
  then have "real_of_int i * real_of_int (n - 2) / real_of_int (t - 2) < real_of_int (n - 2)"
    using pos by (simp add: divide_less_eq mult.commute)
  then have "\<lfloor>real_of_int i * (real_of_int (n - 2) / real_of_int (t - 2))\<rfloor> < n - 2"
    by (simp add: floor_less_iff)
  then show ?thesis by simp
qed

text \<open>
  The outer loop, started at iteration \<open>i\<close> with a selected index \<open>a\<close> inside the array,
  returns and appends one data point per remaining iteration.
\<close>

lemma lttbLoop_returns:
  assumes "3 \<le> t" "t < int (length data)"
    and bs: "bs = real_of_int (int (length data) - 2) / real_of_int (t - 2)"
  shows "k = nat (t - 2 - i) \<Longrightarrow> 0 \<le> i \<Longrightarrow> i \<le> t - 2 \<Longrightarrow> 0 \<le> a \<Longrightarrow>
         a < int (length data) \<Longrightarrow>
         \<exists>rest. lttbLoop data t bs i a sampled = Inr (sampled @ map Some rest) \<and>
                int (length rest) = t - 2 - i"
proof (induction k arbitrary: i a sampled)
  case 0
  then have "\<not> i < t - 2" by simp
  then have "lttbLoop data t bs i a sampled = Inr sampled"
    by (subst lttbLoop.simps) simp
  with 0 show ?case by simp
next
  case (Suc k)
  let ?n = "int (length data)"
  from Suc have i: "i < t - 2" by simp
  have bs0: "0 \<le> bs"
    using assms by (simp add: bs)
  let ?avgRangeStart = "\<lfloor>real_of_int (i + 1) * bs\<rfloor> + 1"
  let ?avgRangeEnd = "\<lfloor>real_of_int (i + 2) * bs\<rfloor> + 1"
  let ?rangeStart = "\<lfloor>real_of_int i * bs\<rfloor> + 1"
  let ?rangeEnd = "\<lfloor>real_of_int (i + 1) * bs\<rfloor> + 1"
  have "0 \<le> ?avgRangeStart"
    using bucket_floor_nonneg [of "i + 1" bs] Suc.prems(2) bs0 by linarith
  then obtain sumT sumV where
    avg: "avgLoop data ?avgRangeStart (min ?avgRangeEnd ?n) (0, 0) = Inr (sumT, sumV)"
    using avgLoop_returns [of ?avgRangeStart "min ?avgRangeEnd ?n" data "(0, 0)"] by auto
  have rs0: "1 \<le> ?rangeStart"
    using bucket_floor_nonneg [of i bs] Suc.prems(2) bs0 by linarith
  have rsn: "?rangeStart \<le> ?n - 2"
    unfolding bs using assms Suc.prems(2) i by (intro bucket_floor_below) simp_all
  have pointA: "idx data a = Some (data ! nat a)"
    using Suc.prems by (simp add: idx_in_range)
  let ?avgT = "div_length sumT (min ?avgRangeEnd ?n - ?avgRangeStart)"
  let ?avgV = "div_length sumV (min ?avgRangeEnd ?n - ?avgRangeStart)"
  obtain ma mp where
    area: "areaLoop data (Some (data ! nat a)) ?avgT ?avgV ?rangeStart (min ?rangeEnd ?n)
             (- 1, ?rangeStart) = Inr (ma, mp)"
    and mp: "mp = ?rangeStart \<or> (?rangeStart \<le> mp \<and> mp < min ?rangeEnd ?n)"
    using areaLoop_returns [of ?rangeStart "min ?rangeEnd ?n" data "data ! nat a" ?avgT ?avgV
            "(- 1, ?rangeStart)"] rs0
    by auto
  from mp rs0 rsn have mp0: "0 \<le> mp" and mpn: "mp < ?n"
    by linarith+
  then have sel: "idx data mp = Some (data ! nat mp)"
    by (simp add: idx_in_range)
  have step: "lttbLoop data t bs i a sampled
                = lttbLoop data t bs (i + 1) mp (sampled @ [Some (data ! nat mp)])"
    by (subst lttbLoop.simps)
       (simp only: i if_True Let_def avg sum.case prod.case pointA area sel)
  have "k = nat (t - 2 - (i + 1))"
    using Suc.prems(1) by linarith
  then obtain rest where
    rest: "lttbLoop data t bs (i + 1) mp (sampled @ [Some (data ! nat mp)])
             = Inr ((sampled @ [Some (data ! nat mp)]) @ map Some rest)"
    and len: "int (length rest) = t - 2 - (i + 1)"
    using Suc.IH [of "i + 1" mp "sampled @ [Some (data ! nat mp)]"] Suc.prems(2) i mp0 mpn
    by auto
  have "lttbLoop data t bs i a sampled = Inr (sampled @ map Some (data ! nat mp # rest))"
    using step rest by simp
  moreover have "int (length (data ! nat mp # rest)) = t - 2 - i"
    using len by simp
  ultimately show ?case by blast
qed

text \<open>
  C1. For \<open>threshold \<ge> 3\<close> and an array longer than \<open>threshold\<close>, \<open>downsampleLTTB\<close>
  returns (no \<open>TypeError\<close>, no \<open>undefined\<close> element) an array of exactly \<open>threshold\<close>
  data points whose first element is the input's first and whose last element is the
  input's last.
\<close>

theorem downsampleLTTB_length_first_last:
  "3 \<le> threshold \<Longrightarrow> threshold < int (length data) \<Longrightarrow>
     \<exists>out. downsampleLTTB data threshold = Inr (map Some out) \<and>
           int (length out) = threshold \<and> hd out = hd data \<and> last out = last data"
proof -
  assume t: "3 \<le> threshold" and n: "threshold < int (length data)"
  let ?n = "int (length data)"
  let ?bs = "real_of_int (?n - 2) / real_of_int (threshold - 2)"
  have ne: "data \<noteq> []" using t n by auto
  have first: "idx data 0 = Some (hd data)"
    using ne by (simp add: idx_def hd_conv_nth)
  have "nat (?n - 1) = length data - 1"
    by linarith
  then have lst: "idx data (?n - 1) = Some (last data)"
    using ne by (simp add: idx_def last_conv_nth)
  have nle: "\<not> ?n \<le> threshold" using n by simp
  have "\<exists>rest. lttbLoop data threshold ?bs 0 0 [Some (hd data)]
                  = Inr ([Some (hd data)] @ map Some rest) \<and>
               int (length rest) = threshold - 2 - 0"
    using t n by (intro lttbLoop_returns [OF t n refl refl]) auto
  then obtain rest where
    loop: "lttbLoop data threshold ?bs 0 0 [Some (hd data)]
             = Inr ([Some (hd data)] @ map Some rest)"
    and len: "int (length rest) = threshold - 2 - 0"
    by blast
  have "downsampleLTTB data threshold = Inr (map Some (hd data # rest @ [last data]))"
    by (simp only: downsampleLTTB_def Let_def nle if_False first loop sum.case lst) simp
  moreover have "int (length (hd data # rest @ [last data])) = threshold"
    using len by simp
  ultimately show ?thesis
    by (intro exI [of _ "hd data # rest @ [last data]"]) simp
qed

theorem downsampleLTTB_length_first_last_witness:
  "(3::int) \<le> 3 \<and>
   3 < int (length [examplePoint 0 1, examplePoint 1 5, examplePoint 2 9, examplePoint 3 2,
                    examplePoint 4 3]) \<and>
   (\<exists>out. downsampleLTTB [examplePoint 0 1, examplePoint 1 5, examplePoint 2 9,
                           examplePoint 3 2, examplePoint 4 3] 3 = Inr (map Some out) \<and>
          int (length out) = 3 \<and> hd out = examplePoint 0 1 \<and> last out = examplePoint 4 3) \<and>
   downsampleLTTB [examplePoint 0 1, examplePoint 1 5, examplePoint 2 9, examplePoint 3 2,
                   examplePoint 4 3] 3
     = Inr [Some (examplePoint 0 1), Some (examplePoint 2 9), Some (examplePoint 4 3)]"
proof -
  have "downsampleLTTB [examplePoint 0 1, examplePoint 1 5, examplePoint 2 9, examplePoint 3 2,
                        examplePoint 4 3] 3
          = Inr [Some (examplePoint 0 1), Some (examplePoint 2 9), Some (examplePoint 4 3)]"
    by (simp add: downsampleLTTB_def lttbLoop.simps avgLoop.simps areaLoop.simps idx_def
          div_length_def triangleArea_def)
  then show ?thesis
    using downsampleLTTB_length_first_last
      [of 3 "[examplePoint 0 1, examplePoint 1 5, examplePoint 2 9, examplePoint 3 2,
              examplePoint 4 3]"]
    by simp
qed

subsection \<open>The stride downsampler\<close>

text \<open>
  The stride loop returns, and it appends the elements at the indices \<open>i\<close>, \<open>i + step\<close>,
  \<open>i + 2 * step\<close>, \<open>\<dots>\<close> below the length.
\<close>

lemma stride_count_step:
  fixes n i step :: int
  assumes "0 < step" "i < n"
  shows "(n - i + step - 1) div step
           = (if i + step < n then (n - (i + step) + step - 1) div step else 0) + 1"
proof (cases "i + step < n")
  case True
  have "((n - (i + step) + step - 1) + step) div step
          = (n - (i + step) + step - 1) div step + 1"
    using assms(1) by (intro div_add_self2) simp
  then have "(n - i + step - 1) div step = (n - (i + step) + step - 1) div step + 1"
    by (simp add: algebra_simps)
  with True show ?thesis by simp
next
  case False
  have "0 \<le> n - i - 1" "n - i - 1 < step"
    using False assms(2) by simp_all
  then have "(n - i - 1) div step = 0"
    by (rule div_pos_pos_trivial)
  moreover have "((n - i - 1) + step) div step = (n - i - 1) div step + 1"
    using assms(1) by (intro div_add_self2) simp
  ultimately have "(n - i + step - 1) div step = 1"
    by (simp add: algebra_simps)
  with False show ?thesis by simp
qed

lemma stride_count_nonneg:
  fixes n i step :: int
  assumes "0 < step" "i < n"
  shows "0 \<le> (n - i + step - 1) div step"
  using assms by (intro pos_imp_zdiv_nonneg_iff [THEN iffD2]) simp_all

lemma strideLoop_elems:
  "0 < step \<Longrightarrow>
     strideLoop data step i sampled =
       Some (sampled @ map (\<lambda>k. idx data (i + int k * step))
                         [0 ..< nat (if i < int (length data)
                                     then (int (length data) - i + step - 1) div step
                                     else 0)])"
proof (induction data step i sampled rule: strideLoop.induct)
  case (1 data step i sampled)
  let ?n = "int (length data)"
  let ?c = "\<lambda>j. if j < ?n then (?n - j + step - 1) div step else 0"
  show ?case
  proof (cases "i < ?n")
    case True
    have c0: "0 \<le> ?c (i + step)"
      using stride_count_nonneg [of step "i + step" ?n] 1(2) by simp
    have "?c i = ?c (i + step) + 1"
      using stride_count_step [OF 1(2) True] True by simp
    then have cs: "nat (?c i) = Suc (nat (?c (i + step)))"
      using c0 by linarith
    have "strideLoop data step i sampled
            = strideLoop data step (i + step) (sampled @ [idx data i])"
      using True 1(2) by (subst strideLoop.simps) simp
    also have "\<dots> = Some ((sampled @ [idx data i]) @
                 map (\<lambda>k. idx data (i + step + int k * step)) [0 ..< nat (?c (i + step))])"
      using 1 True by simp
    also have "(sampled @ [idx data i]) @
                 map (\<lambda>k. idx data (i + step + int k * step)) [0 ..< nat (?c (i + step))]
               = sampled @ map (\<lambda>k. idx data (i + int k * step)) [0 ..< nat (?c i)]"
      by (simp only: cs map_upt_Suc) (simp add: algebra_simps)
    finally show ?thesis .
  next
    case False
    then show ?thesis
      by (subst strideLoop.simps) simp
  qed
qed

text \<open>
  With \<open>step = ceil (n / m)\<close> the indices \<open>0\<close>, \<open>step\<close>, \<open>2 * step\<close>, \<open>\<dots>\<close> below \<open>n\<close> are
  at most \<open>m\<close>.
\<close>

lemma div_step_full: "0 < s \<Longrightarrow> ((s - 1) + m * s) div s = (m::int)"
  by simp

lemma stride_count_le:
  assumes "1 \<le> m" "m < n"
  shows "(n + \<lceil>real_of_int n / real_of_int m\<rceil> - 1) div \<lceil>real_of_int n / real_of_int m\<rceil> \<le> m"
proof -
  let ?s = "\<lceil>real_of_int n / real_of_int m\<rceil>"
  have "real_of_int n / real_of_int m \<le> real_of_int ?s"
    by (rule le_of_int_ceiling)
  moreover have "0 < real_of_int m"
    using assms by simp
  ultimately have "real_of_int n \<le> real_of_int ?s * real_of_int m"
    by (simp only: pos_divide_le_eq)
  then have nm: "n \<le> ?s * m"
    by (metis of_int_le_iff of_int_mult)
  have "0 < real_of_int n / real_of_int m"
    using assms by (intro divide_pos_pos) simp_all
  then have spos: "0 < ?s"
    by (simp only: zero_less_ceiling)
  have "n + ?s - 1 \<le> (?s - 1) + m * ?s"
    using nm by (simp add: mult.commute)
  then have "(n + ?s - 1) div ?s \<le> ((?s - 1) + m * ?s) div ?s"
    using spos by (intro zdiv_mono1)
  also have "\<dots> = m"
    using spos by (rule div_step_full)
  finally show ?thesis .
qed


lemma div_times_le: "0 < s \<Longrightarrow> (x div s) * s \<le> (x::int)"
proof -
  assume s: "0 < s"
  have "x = (x div s) * s + x mod s"
    by simp
  moreover have "0 \<le> x mod s"
    using s by (rule pos_mod_sign)
  ultimately show ?thesis by linarith
qed

lemma less_div_times: "0 < s \<Longrightarrow> (x::int) < (x div s) * s + s"
proof -
  assume s: "0 < s"
  have "x = (x div s) * s + x mod s"
    by simp
  moreover have "x mod s < s"
    using s by (rule pos_mod_bound)
  ultimately show ?thesis by linarith
qed

lemma idx_nat: "j < length xs \<Longrightarrow> idx xs (int j) = Some (xs ! j)"
  by (simp add: idx_def)

lemma idx_last: "xs \<noteq> [] \<Longrightarrow> idx xs (int (length xs) - 1) = Some (last xs)"
proof -
  assume ne: "xs \<noteq> []"
  have "nat (int (length xs) - 1) = length xs - 1"
    by linarith
  then show ?thesis
    using ne by (simp add: idx_def last_conv_nth)
qed

lemma idx_js_last:
  "xs \<noteq> [] \<Longrightarrow> idx_js (map Some xs) (int (length (map Some xs)) - 1) = Some (last xs)"
  using idx_last [of "map Some xs"] by (simp add: idx_js_def last_map)

text \<open>
  C4. The claim: for an array longer than \<open>maxPoints \<ge> 1\<close>, \<open>downsampleSimple\<close> returns at
  most \<open>maxPoints\<close> elements. On ten distinct objects and \<open>maxPoints = 3\<close> the step is
  \<open>4\<close>, the stride takes the indices \<open>0, 4, 8\<close>, the last object (index \<open>9\<close>) is appended,
  and the result has four elements.
\<close>

theorem downsampleSimple_exceeds_maxPoints:
  "downsampleSimple [0, 1, 2, 3, 4, 5, 6, 7, 8, 9 :: nat] 3
     = Some [Some 0, Some 4, Some 8, Some 9] \<and>
   \<not> int (length [Some 0, Some 4, Some 8, Some (9 :: nat)]) \<le> 3"
  by (simp add: downsampleSimple_def strideLoop.simps idx_def idx_js_def)

text \<open>
  C4, amended. For an array longer than \<open>maxPoints \<ge> 1\<close>, \<open>downsampleSimple\<close> returns. Its
  result is the stride, that is the elements at the indices \<open>0\<close>, \<open>step\<close>, \<open>2 * step\<close>,
  \<open>\<dots>\<close> below the length with \<open>step = ceil (length / maxPoints)\<close>, of which there are at
  least one and at most \<open>maxPoints\<close>, followed by the last element of the input exactly
  when the last element of the stride is not that element. So the result has at most
  \<open>maxPoints + 1\<close> elements.
\<close>

theorem downsampleSimple_bound:
  assumes "1 \<le> maxPoints" "maxPoints < int (length data)"
  shows "\<exists>step count stride.
           int step = \<lceil>real_of_int (int (length data)) / real_of_int maxPoints\<rceil> \<and>
           0 < count \<and> int count \<le> maxPoints \<and>
           (count - 1) * step < length data \<and> length data \<le> count * step \<and>
           stride = map (\<lambda>k. data ! (k * step)) [0 ..< count] \<and>
           downsampleSimple data maxPoints
             = Some (map Some (if last stride = last data then stride
                               else stride @ [last data])) \<and>
           int (length (if last stride = last data then stride else stride @ [last data]))
             \<le> maxPoints + 1"
proof -
  let ?n = "int (length data)"
  let ?s = "\<lceil>real_of_int ?n / real_of_int maxPoints\<rceil>"
  let ?c = "(?n + ?s - 1) div ?s"
  define step where "step = nat ?s"
  define count where "count = nat ?c"
  define stride where "stride = map (\<lambda>k. data ! (k * step)) [0 ..< count]"
  have ne: "data \<noteq> []" using assms by auto
  have "0 < real_of_int ?n / real_of_int maxPoints"
    using assms by (intro divide_pos_pos) auto
  then have spos: "0 < ?s"
    by (simp only: zero_less_ceiling)
  have step: "int step = ?s"
    using spos by (simp add: step_def)
  have npos: "0 < ?n" using ne by simp
  have "?c = (if 0 + ?s < ?n then (?n - (0 + ?s) + ?s - 1) div ?s else 0) + 1"
    using stride_count_step [OF spos npos] by simp
  moreover have "0 \<le> (if 0 + ?s < ?n then (?n - (0 + ?s) + ?s - 1) div ?s else 0)"
    using stride_count_nonneg [of ?s "0 + ?s" ?n] spos by simp
  ultimately have cpos: "1 \<le> ?c" by linarith
  have count: "int count = ?c"
    using cpos by (simp add: count_def)
  have cle: "?c \<le> maxPoints"
    using stride_count_le [OF assms] .
  have "?c * ?s \<le> ?n + ?s - 1"
    using spos by (rule div_times_le)
  then have low: "(?c - 1) * ?s < ?n"
    by (simp add: algebra_simps)
  have "?n + ?s - 1 < ?c * ?s + ?s"
    using spos by (rule less_div_times)
  then have high: "?n \<le> ?c * ?s" by simp
  have "int (count - 1) = ?c - 1"
    using cpos count by linarith
  then have "int ((count - 1) * step) = (?c - 1) * ?s"
    by (simp only: of_nat_mult step)
  with low have low': "(count - 1) * step < length data"
    by linarith
  have "int (count * step) = ?c * ?s"
    by (simp only: of_nat_mult count step)
  with high have high': "length data \<le> count * step"
    by linarith
  have inr: "k * step < length data" if "k < count" for k
  proof -
    have "k \<le> count - 1" using that by simp
    then have "k * step \<le> (count - 1) * step"
      by (rule mult_le_mono1)
    then show ?thesis using low' by (rule le_less_trans)
  qed
  have elems: "map (\<lambda>k. idx data (0 + int k * ?s)) [0 ..< count] = map Some stride"
    unfolding stride_def map_map
  proof (rule map_cong [OF refl])
    fix k assume "k \<in> set [0 ..< count]"
    then have k: "k * step < length data" using inr by simp
    have "0 + int k * ?s = int (k * step)"
      by (simp only: step [symmetric] of_nat_mult add_0)
    then have "idx data (0 + int k * ?s) = idx data (int (k * step))"
      by (simp only:)
    also have "\<dots> = Some (data ! (k * step))"
      using k by (rule idx_nat)
    finally show "idx data (0 + int k * ?s) = (Some \<circ> (\<lambda>k. data ! (k * step))) k"
      by simp
  qed
  have loop: "strideLoop data ?s 0 [] = Some (map Some stride)"
    using strideLoop_elems [OF spos, of data 0 "[]"] npos elems
    by (simp add: count_def)
  have sne: "stride \<noteq> []"
    using cpos count by (simp add: stride_def)
  have lastS: "idx_js (map Some stride) (int (length (map Some stride)) - 1) = Some (last stride)"
    using sne by (rule idx_js_last)
  have lastD: "idx data (?n - 1) = Some (last data)"
    using ne by (rule idx_last)
  have nle: "\<not> ?n \<le> maxPoints" and m0: "maxPoints \<noteq> 0"
    using assms by simp_all
  have res: "downsampleSimple data maxPoints
          = Some (map Some (if last stride = last data then stride else stride @ [last data]))"
    by (simp only: downsampleSimple_def Let_def nle m0 if_False loop option.case lastS lastD)
       simp
  have "int (length stride) \<le> maxPoints"
    using cle count by (simp add: stride_def)
  then have len: "int (length (if last stride = last data then stride else stride @ [last data]))
          \<le> maxPoints + 1"
    by simp
  have "0 < count" using cpos count by linarith
  moreover have "int count \<le> maxPoints" using cle count by simp
  ultimately show ?thesis
    using step low' high' res len stride_def by blast
qed

theorem downsampleSimple_bound_witness:
  "(1::int) \<le> 3 \<and> 3 < int (length [0, 1, 2, 3, 4, 5, 6, 7, 8, 9 :: nat]) \<and>
   (\<exists>step count stride.
      int step = \<lceil>real_of_int (int (length [0, 1, 2, 3, 4, 5, 6, 7, 8, 9 :: nat]))
                  / real_of_int 3\<rceil> \<and>
      0 < count \<and> int count \<le> 3 \<and>
      (count - 1) * step < length [0, 1, 2, 3, 4, 5, 6, 7, 8, 9 :: nat] \<and>
      length [0, 1, 2, 3, 4, 5, 6, 7, 8, 9 :: nat] \<le> count * step \<and>
      stride = map (\<lambda>k. [0, 1, 2, 3, 4, 5, 6, 7, 8, 9 :: nat] ! (k * step)) [0 ..< count] \<and>
      downsampleSimple [0, 1, 2, 3, 4, 5, 6, 7, 8, 9 :: nat] 3
        = Some (map Some (if last stride = last [0, 1, 2, 3, 4, 5, 6, 7, 8, 9 :: nat]
                          then stride
                          else stride @ [last [0, 1, 2, 3, 4, 5, 6, 7, 8, 9 :: nat]])) \<and>
      int (length (if last stride = last [0, 1, 2, 3, 4, 5, 6, 7, 8, 9 :: nat] then stride
                   else stride @ [last [0, 1, 2, 3, 4, 5, 6, 7, 8, 9 :: nat]]))
        \<le> 3 + 1) \<and>
   downsampleSimple [0, 1, 2, 3, 4, 5, 6, 7, 8, 9 :: nat] 3
     = Some (map Some ([0, 4, 8] @ [9]))"
proof -
  have "downsampleSimple [0, 1, 2, 3, 4, 5, 6, 7, 8, 9 :: nat] 3
          = Some (map Some ([0, 4, 8] @ [9]))"
    by (simp add: downsampleSimple_def strideLoop.simps idx_def idx_js_def)
  moreover have "(1::int) \<le> 3" "3 < int (length [0, 1, 2, 3, 4, 5, 6, 7, 8, 9 :: nat])"
    by simp_all
  ultimately show ?thesis
    using downsampleSimple_bound [of 3 "[0, 1, 2, 3, 4, 5, 6, 7, 8, 9 :: nat]"]
    by blast
qed

subsection \<open>Identity below the limit\<close>

text \<open>
  C5. An array whose length is at most the limit is returned unchanged by both
  downsamplers: \<open>downsampleSimple\<close> with \<open>maxPoints = limit\<close> and \<open>downsampleLTTB\<close> with
  \<open>threshold = limit\<close>.
\<close>

theorem downsample_identity:
  "int (length data) \<le> limit \<Longrightarrow>
     downsampleSimple data limit = Some (map Some data) \<and>
     downsampleLTTB data limit = Inr (map Some data)"
  by (simp add: downsampleSimple_def downsampleLTTB_def)

theorem downsample_identity_witness:
  "int (length [examplePoint 0 1, examplePoint 1 5]) \<le> 2 \<and>
   downsampleSimple [examplePoint 0 1, examplePoint 1 5] 2
     = Some [Some (examplePoint 0 1), Some (examplePoint 1 5)] \<and>
   downsampleLTTB [examplePoint 0 1, examplePoint 1 5] 2
     = Inr [Some (examplePoint 0 1), Some (examplePoint 1 5)]"
  using downsample_identity [of "[examplePoint 0 1, examplePoint 1 5]" 2]
  by simp

subsection \<open>The scale and the pixel mapping\<close>

lemma xRange_calculateScales:
  "xRange (calculateScales data) =
     (if xMax (calculateScales data) = xMin (calculateScales data) then 1
      else xMax (calculateScales data) - xMin (calculateScales data))"
  by (cases data) (simp_all add: calculateScales_def Let_def or_else_def)

lemma yRange_calculateScales:
  "yRange (calculateScales data) =
     (if yMax (calculateScales data) = yMin (calculateScales data) then 1
      else yMax (calculateScales data) - yMin (calculateScales data))"
  by (cases data) (simp_all add: calculateScales_def Let_def or_else_def)

text \<open>
  C6. For every array, the empty one included, the scale of \<open>calculateScales\<close> has
  \<open>xRange \<noteq> 0\<close> and \<open>yRange \<noteq> 0\<close>: each range is \<open>max - min\<close>, replaced by \<open>1\<close> when that
  difference is zero; a single point gives \<open>xRange = 1\<close> and \<open>yRange = 1\<close>. These are the
  divisors of \<open>dataToCanvas\<close>.
\<close>

theorem calculateScales_ranges_nonzero:
  "xRange (calculateScales data) \<noteq> 0 \<and> yRange (calculateScales data) \<noteq> 0 \<and>
   xRange (calculateScales data) =
     (if xMax (calculateScales data) - xMin (calculateScales data) = 0 then 1
      else xMax (calculateScales data) - xMin (calculateScales data)) \<and>
   yRange (calculateScales data) =
     (if yMax (calculateScales data) - yMin (calculateScales data) = 0 then 1
      else yMax (calculateScales data) - yMin (calculateScales data)) \<and>
   xRange (calculateScales [p]) = 1 \<and> yRange (calculateScales [p]) = 1"
  by (cases data)
     (simp_all add: calculateScales_def Let_def or_else_def Math_min_def Math_max_def)

theorem calculateScales_ranges_nonzero_witness:
  "xRange (calculateScales [examplePoint 0 10, examplePoint 100 10]) = 100 \<and>
   yRange (calculateScales [examplePoint 0 10, examplePoint 100 10]) = 1 \<and>
   xRange (calculateScales [examplePoint 5 7]) = 1 \<and>
   yRange (calculateScales [examplePoint 5 7]) = 1"
  using calculateScales_ranges_nonzero
          [of "[examplePoint 0 10, examplePoint 100 10]" "examplePoint 5 7"]
  by (simp add: calculateScales_def Math_min_def Math_max_def or_else_def)

text \<open>
  C7. The claim: with the scale of a non-empty array and padding \<open>0\<close>, the point at
  \<open>(xMin, yMin)\<close> maps to \<open>(0, height)\<close> and the point at \<open>(xMax, yMax)\<close> to \<open>(width, 0)\<close>.
  On a single point, which is both corners, the ranges are replaced by \<open>1\<close> and the
  point maps to \<open>(0, height)\<close>, not to \<open>(width, 0)\<close>.
\<close>

theorem dataToCanvas_max_corner_counterexample:
  "timestamp (examplePoint 5 7) = xMax (calculateScales [examplePoint 5 7]) \<and>
   value (examplePoint 5 7) = yMax (calculateScales [examplePoint 5 7]) \<and>
   dataToCanvas (examplePoint 5 7) (calculateScales [examplePoint 5 7]) 100 50 0 = (0, 50) \<and>
   dataToCanvas (examplePoint 5 7) (calculateScales [examplePoint 5 7]) 100 50 0 \<noteq> (100, 0)"
  by (simp add: dataToCanvas_def calculateScales_def Math_min_def Math_max_def or_else_def)

text \<open>
  C7, amended. With the scale of any array and padding \<open>0\<close>, a point at \<open>(xMin, yMin)\<close>
  maps to \<open>(0, height)\<close>; a point at \<open>(xMax, yMax)\<close> maps to \<open>x = width\<close> when
  \<open>xMax \<noteq> xMin\<close> and to \<open>x = 0\<close> when \<open>xMax = xMin\<close>, and to \<open>y = 0\<close> when \<open>yMax \<noteq> yMin\<close>
  and to \<open>y = height\<close> when \<open>yMax = yMin\<close>.
\<close>

theorem dataToCanvas_corners:
  "(timestamp p = xMin (calculateScales data) \<and> value p = yMin (calculateScales data) \<longrightarrow>
      dataToCanvas p (calculateScales data) width height 0 = (0, height)) \<and>
   (timestamp q = xMax (calculateScales data) \<and> value q = yMax (calculateScales data) \<longrightarrow>
      dataToCanvas q (calculateScales data) width height 0 =
        (if xMax (calculateScales data) = xMin (calculateScales data) then 0 else width,
         if yMax (calculateScales data) = yMin (calculateScales data) then height else 0))"
  by (simp add: dataToCanvas_def Let_def xRange_calculateScales yRange_calculateScales)

theorem dataToCanvas_corners_witness:
  "timestamp (examplePoint 0 10)
     = xMin (calculateScales [examplePoint 0 10, examplePoint 100 20]) \<and>
   value (examplePoint 0 10)
     = yMin (calculateScales [examplePoint 0 10, examplePoint 100 20]) \<and>
   timestamp (examplePoint 100 20)
     = xMax (calculateScales [examplePoint 0 10, examplePoint 100 20]) \<and>
   value (examplePoint 100 20)
     = yMax (calculateScales [examplePoint 0 10, examplePoint 100 20]) \<and>
   dataToCanvas (examplePoint 0 10)
     (calculateScales [examplePoint 0 10, examplePoint 100 20]) 800 600 0 = (0, 600) \<and>
   dataToCanvas (examplePoint 100 20)
     (calculateScales [examplePoint 0 10, examplePoint 100 20]) 800 600 0 = (800, 0)"
  using dataToCanvas_corners
          [where p = "examplePoint 0 10" and q = "examplePoint 100 20"
             and data = "[examplePoint 0 10, examplePoint 100 20]"
             and width = 800 and height = 600]
  by (simp add: calculateScales_def Math_min_def Math_max_def)

subsection \<open>The sliding-window buffer\<close>

text \<open>
  C2. With capacity \<open>maxDataPoints \<ge> 1\<close>, appending a point or an array of points gives
  the old contents followed by the new points when that is at most \<open>maxDataPoints\<close>
  long, and otherwise exactly its last \<open>maxDataPoints\<close> elements, in order.
\<close>

theorem addDataPoint_sliding_window:
  "1 \<le> maxDataPoints \<Longrightarrow>
     (int (length (prevData @ toArray newPoint)) \<le> maxDataPoints \<longrightarrow>
        addDataPoint maxDataPoints newPoint prevData = prevData @ toArray newPoint) \<and>
     (int (length (prevData @ toArray newPoint)) > maxDataPoints \<longrightarrow>
        addDataPoint maxDataPoints newPoint prevData =
          drop (length (prevData @ toArray newPoint) - nat maxDataPoints)
               (prevData @ toArray newPoint) \<and>
        int (length (addDataPoint maxDataPoints newPoint prevData)) = maxDataPoints)"
  by (auto simp add: addDataPoint_def slice_def Let_def max_def nat_diff_distrib nat_add_distrib)

theorem addDataPoint_sliding_window_witness:
  "(1::int) \<le> 3 \<and>
   addDataPoint 3 (Points [4, 5]) [1, 2, 3 :: nat] = [3, 4, 5] \<and>
   addDataPoint 3 (Point 3) [1, 2 :: nat] = [1, 2, 3] \<and>
   fold (\<lambda>p. addDataPoint 3 (Point p)) [1, 2, 3, 4, 5 :: nat] [] = [3, 4, 5]"
proof -
  have "fold (\<lambda>p. addDataPoint 3 (Point p)) [1, 2, 3, 4, 5 :: nat] [] = [3, 4, 5]"
    by (simp add: addDataPoint_def toArray_def slice_def)
  then show ?thesis
    using addDataPoint_sliding_window [of 3 "[1, 2, 3 :: nat]" "Points [4, 5]"]
          addDataPoint_sliding_window [of 3 "[1, 2 :: nat]" "Point 3"]
    by (simp add: toArray_def)
qed

text \<open>
  C9. Whatever the buffer holds and whatever the capacity, \<open>replaceData\<close> makes the
  contents exactly the given array: no element is dropped, however long it is.
\<close>

theorem replaceData_no_eviction:
  "replaceData newData prevData = newData \<and>
   length (replaceData newData prevData) = length newData"
  by (simp add: replaceData_def)

theorem replaceData_no_eviction_witness:
  "replaceData [1, 2, 3, 4, 5 :: nat] [7, 8, 9] = [1, 2, 3, 4, 5] \<and>
   addDataPoint 3 (Points [1, 2, 3, 4, 5 :: nat]) [] = [3, 4, 5]"
  using replaceData_no_eviction [of "[1, 2, 3, 4, 5 :: nat]" "[7, 8, 9]"]
  by (simp add: addDataPoint_def toArray_def slice_def)

subsection \<open>Empty input\<close>

text \<open>
  C8. On the empty array no operation fails: \<open>calculateScales\<close> returns the default scale
  \<open>{xMin: 0, xMax: 1, xRange: 1, yMin: 0, yMax: 1, yRange: 1}\<close>, both downsamplers return
  the empty array (the LTTB one for every threshold of at least \<open>0\<close>, which includes its
  documented minimum \<open>3\<close>), \<open>aggregateByCategory\<close> returns the empty mapping and
  \<open>aggregateByTimeWindow\<close> the empty array.
\<close>

theorem empty_input_defaults:
  "calculateScales ([] :: 'm DataPoint list)
     = \<lparr>xMin = 0, xMax = 1, xRange = 1, yMin = 0, yMax = 1, yRange = 1\<rparr> \<and>
   downsampleSimple ([] :: 'm DataPoint list) maxPoints = Some [] \<and>
   (0 \<le> threshold \<longrightarrow> downsampleLTTB ([] :: 'm DataPoint list) threshold = Inr []) \<and>
   aggregateByCategory ([] :: 'm DataPoint list) = Map.empty \<and>
   aggregateByTimeWindow ([] :: 'm DataPoint list) windowMs = []"
  by (simp add: calculateScales_def downsampleSimple_def downsampleLTTB_def
        aggregateByCategory_def aggregateByTimeWindow_def idx_js_def idx_def
        strideLoop.simps)

theorem empty_input_defaults_witness:
  "(0::int) \<le> 3 \<and>
   downsampleSimple ([] :: unit DataPoint list) 2000 = Some [] \<and>
   downsampleLTTB ([] :: unit DataPoint list) 3 = Inr [] \<and>
   aggregateByTimeWindow ([] :: unit DataPoint list) 100 = []"
  using empty_input_defaults [where 'm = unit and maxPoints = 2000 and threshold = 3
                                and windowMs = 100]
  by simp

subsection \<open>Time-window aggregation\<close>

text \<open>The \<open>Map\<close> operations on the association list.\<close>

lemma fst_in_keys: "(k, v) \<in> set m \<Longrightarrow> k \<in> fst ` set m"
  by force

lemma keys_map_set:
  "map fst (map_set m k v) = (if k \<in> set (map fst m) then map fst m else map fst m @ [k])"
  by (induction m) (auto dest: fst_in_keys)

lemma map_get_map_set:
  "map_get (map_set m k v) k' = (if k' = k then Some v else map_get m k')"
  by (induction m) auto

lemma map_get_distinct:
  "distinct (map fst m) \<Longrightarrow> (k, v) \<in> set m \<Longrightarrow> map_get m k = Some v"
  by (induction m) (auto dest: fst_in_keys)

text \<open>
  The keys of the \<open>Map\<close> after the \<open>forEach\<close> are the bucket keys of the input, each
  once, in the order of their first occurrence: \<open>rev (remdups (rev ks))\<close> keeps the first
  occurrence of every element of \<open>ks\<close>.
\<close>

lemma keys_addToWindow:
  "map fst (addToWindow w p m) =
     (if windowKey w p \<in> set (map fst m) then map fst m else map fst m @ [windowKey w p])"
  by (simp add: addToWindow_def Let_def keys_map_set)

lemma keys_fold_addToWindow:
  "map fst (fold (addToWindow w) data []) = rev (remdups (rev (map (windowKey w) data)))"
proof (induction data rule: rev_induct)
  case Nil
  then show ?case by simp
next
  case (snoc p ps)
  have "set (map fst (fold (addToWindow w) ps [])) = set (map (windowKey w) ps)"
    by (simp only: snoc.IH set_rev set_remdups)
  then show ?case
    using snoc.IH by (simp add: keys_addToWindow)
qed

text \<open>The entry of a bucket holds the sum and the number of the points that fall into it.\<close>

lemma get_fold_addToWindow:
  "map_get (fold (addToWindow w) data []) k =
     (if k \<in> set (map (windowKey w) data)
      then Some \<lparr>sum_w = sum_list (map value (filter (\<lambda>p. windowKey w p = k) data)),
                 count_w = int (length (filter (\<lambda>p. windowKey w p = k) data))\<rparr>
      else None)"
proof (induction data rule: rev_induct)
  case Nil
  then show ?case by simp
next
  case (snoc p ps)
  have empty: "k \<notin> set (map (windowKey w) ps) \<Longrightarrow>
                filter (\<lambda>p. windowKey w p = k) ps = []"
    by (auto simp add: filter_empty_conv)
  show ?case
  proof (cases "windowKey w p = k")
    case True
    show ?thesis
    proof (cases "k \<in> set (map (windowKey w) ps)")
      case True
      with \<open>windowKey w p = k\<close> snoc.IH show ?thesis
        by (simp add: addToWindow_def Let_def map_get_map_set)
    next
      case False
      with \<open>windowKey w p = k\<close> snoc.IH empty show ?thesis
        by (simp add: addToWindow_def Let_def map_get_map_set)
    qed
  next
    case False
    then show ?thesis
      using snoc.IH by (auto simp add: addToWindow_def Let_def map_get_map_set)
  qed
qed

lemma timestamps_aggregateByTimeWindow:
  "map timestamp (aggregateByTimeWindow data w) = map fst (fold (addToWindow w) data [])"
  by (cases data) (simp_all add: aggregateByTimeWindow_def Let_def comp_def case_prod_unfold)

text \<open>For a positive window the bucket key grows with the timestamp.\<close>

lemma windowKey_mono:
  assumes "0 < w" "timestamp p \<le> timestamp q"
  shows "windowKey w p \<le> windowKey w q"
proof -
  have "timestamp p / w \<le> timestamp q / w"
    using assms by (simp add: divide_right_mono)
  then have "\<lfloor>timestamp p / w\<rfloor> \<le> \<lfloor>timestamp q / w\<rfloor>"
    by (rule floor_mono)
  then show ?thesis
    using assms(1) by (simp add: windowKey_def)
qed

lemma sorted_wrt_remdups_any: "sorted_wrt P xs \<Longrightarrow> sorted_wrt P (remdups xs)"
  by (induction xs) auto

lemma sorted_first_occurrences:
  fixes ks :: "real list"
  assumes "sorted ks"
  shows "sorted_wrt (<) (rev (remdups (rev ks)))"
proof -
  have "sorted_wrt (\<ge>) (rev ks)"
    using assms by (simp add: sorted_wrt_rev)
  then have "sorted_wrt (\<ge>) (remdups (rev ks))"
    by (rule sorted_wrt_remdups_any)
  then have "sorted (rev (remdups (rev ks)))"
    by (simp add: sorted_wrt_rev)
  moreover have "distinct (rev (remdups (rev ks)))"
    by simp
  ultimately show ?thesis
    by (simp add: strict_sorted_iff)
qed

text \<open>
  C3. The claim: for every array and \<open>windowMs > 0\<close> the output has one point per
  non-empty bucket \<open>floor(timestamp / windowMs) * windowMs\<close>, with the bucket's mean as
  value, in ascending order of bucket timestamp. The code does not sort: on the
  timestamps \<open>150, 0\<close> with \<open>windowMs = 100\<close> the output timestamps are \<open>100, 0\<close>.
\<close>

theorem aggregateByTimeWindow_order_counterexample:
  "map timestamp (aggregateByTimeWindow [examplePoint 150 30, examplePoint 0 10] 100)
     = [100, 0] \<and>
   \<not> sorted (map timestamp
               (aggregateByTimeWindow [examplePoint 150 30, examplePoint 0 10] 100))"
  by (simp add: aggregateByTimeWindow_def addToWindow_def windowKey_def)

text \<open>
  C3, amended. For every array and \<open>windowMs > 0\<close> the output has exactly one point per
  non-empty bucket \<open>floor(timestamp / windowMs) * windowMs\<close>, whose timestamp is the bucket
  key, whose value is the sum of the bucket's values divided by their number and whose
  category is \<open>aggregated\<close>; the points are in the order in which their buckets first
  occur in the input.
\<close>

theorem aggregateByTimeWindow_buckets:
  "0 < windowMs \<Longrightarrow>
     map timestamp (aggregateByTimeWindow data windowMs)
       = rev (remdups (rev (map (windowKey windowMs) data))) \<and>
     (\<forall>q \<in> set (aggregateByTimeWindow data windowMs).
        value q = sum_list (map value (filter (\<lambda>p. windowKey windowMs p = timestamp q) data))
                  / real (length (filter (\<lambda>p. windowKey windowMs p = timestamp q) data)) \<and>
        category q = ''aggregated'')"
proof (intro conjI ballI)
  show "map timestamp (aggregateByTimeWindow data windowMs)
          = rev (remdups (rev (map (windowKey windowMs) data)))"
    by (simp only: timestamps_aggregateByTimeWindow keys_fold_addToWindow)
next
  fix q assume q: "q \<in> set (aggregateByTimeWindow data windowMs)"
  let ?m = "fold (addToWindow windowMs) data []"
  from q obtain k win where kw: "(k, win) \<in> set ?m"
    and qdef: "q = \<lparr>timestamp = k, value = sum_w win / real_of_int (count_w win),
                     category = ''aggregated'', metadata = None\<rparr>"
    by (auto simp add: aggregateByTimeWindow_def Let_def split: if_splits)
  have "distinct (map fst ?m)"
    by (simp only: keys_fold_addToWindow distinct_rev distinct_remdups)
  then have "map_get ?m k = Some win"
    using kw by (rule map_get_distinct)
  then have "win = \<lparr>sum_w = sum_list (map value (filter (\<lambda>p. windowKey windowMs p = k) data)),
                    count_w = int (length (filter (\<lambda>p. windowKey windowMs p = k) data))\<rparr>"
    by (simp add: get_fold_addToWindow split: if_splits)
  then show "value q
               = sum_list (map value (filter (\<lambda>p. windowKey windowMs p = timestamp q) data))
                 / real (length (filter (\<lambda>p. windowKey windowMs p = timestamp q) data))"
    by (simp add: qdef)
  show "category q = ''aggregated''"
    by (simp add: qdef)
qed

theorem aggregateByTimeWindow_buckets_witness:
  "(0::real) < 100 \<and>
   map timestamp (aggregateByTimeWindow
     [examplePoint 0 10, examplePoint 50 20, examplePoint 150 30, examplePoint 180 40] 100)
     = [0, 100] \<and>
   aggregateByTimeWindow
     [examplePoint 0 10, examplePoint 50 20, examplePoint 150 30, examplePoint 180 40] 100
     = [\<lparr>timestamp = 0, value = 15, category = ''aggregated'', metadata = None\<rparr>,
        \<lparr>timestamp = 100, value = 35, category = ''aggregated'', metadata = None\<rparr>]"
proof -
  have "aggregateByTimeWindow
     [examplePoint 0 10, examplePoint 50 20, examplePoint 150 30, examplePoint 180 40] 100
     = [\<lparr>timestamp = 0, value = 15, category = ''aggregated'', metadata = None\<rparr>,
        \<lparr>timestamp = 100, value = 35, category = ''aggregated'', metadata = None\<rparr>]"
    by (simp add: aggregateByTimeWindow_def addToWindow_def windowKey_def)
  then show ?thesis
    using aggregateByTimeWindow_buckets
      [of 100 "[examplePoint 0 10, examplePoint 50 20, examplePoint 150 30,
                examplePoint 180 40]"]
    by simp
qed

text \<open>
  C10. For an array whose timestamps are non-decreasing and \<open>windowMs > 0\<close>, the output
  of \<open>aggregateByTimeWindow\<close> is in strictly ascending order of bucket timestamp, though
  the code does not sort.
\<close>

theorem aggregateByTimeWindow_ascending_on_monotone_input:
  "sorted (map timestamp data) \<Longrightarrow> 0 < windowMs \<Longrightarrow>
     sorted_wrt (<) (map timestamp (aggregateByTimeWindow data windowMs))"
proof -
  assume s: "sorted (map timestamp data)" and w: "0 < windowMs"
  have "sorted (map (windowKey windowMs) data)"
    using s by (induction data) (auto intro: windowKey_mono [OF w])
  then have "sorted_wrt (<) (rev (remdups (rev (map (windowKey windowMs) data))))"
    by (rule sorted_first_occurrences)
  then show ?thesis
    by (simp only: timestamps_aggregateByTimeWindow keys_fold_addToWindow)
qed

theorem aggregateByTimeWindow_ascending_on_monotone_input_witness:
  "sorted (map timestamp
     [examplePoint 0 10, examplePoint 50 20, examplePoint 150 30, examplePoint 180 40]) \<and>
   (0::real) < 100 \<and>
   sorted_wrt (<) (map timestamp (aggregateByTimeWindow
     [examplePoint 0 10, examplePoint 50 20, examplePoint 150 30, examplePoint 180 40] 100))"
  using aggregateByTimeWindow_ascending_on_monotone_input
    [of "[examplePoint 0 10, examplePoint 50 20, examplePoint 150 30, examplePoint 180 40]" 100]
  by simp

end
